theory Spec2Isabelle
  imports Main "HOL-Library.AList"
begin

section \<open>GaiaComponents: the type-keyed sub-component registry\<close>

text \<open>
  A shallow embedding of \<^verbatim>\<open>Gaia::Components::Component\<close>
  (\<^verbatim>\<open>GaiaComponents/Component.hpp\<close>, \<^verbatim>\<open>GaiaComponents/Component.cpp\<close>).

  \<^item> An object is a value of the datatype \<open>component\<close>. Ownership through
    \<^verbatim>\<open>std::unique_ptr\<close> is tree-shaped, so the owned children are nested inside
    the owner; \<open>this_addr\<close> is the address of the object, which is what a raw
    \<^verbatim>\<open>Component*\<close> compares by.
  \<^item> \<^verbatim>\<open>std::unique_ptr<Component>\<close> is \<open>component option\<close>, \<open>None\<close> being the
    null pointer. A raw pointer handed out by the registry is modelled by the pointee as it
    is at that moment (\<open>None\<close> for \<^verbatim>\<open>nullptr\<close>); the field \<open>Parent\<close> only
    stores an address, since the parent is not owned.
  \<^item> \<^verbatim>\<open>typeid(T).hash_code()\<close> is a \<open>type_key\<close>; a type is identified with its
    key. \<open>bases c\<close> lists the keys of the classes the dynamic type of \<open>c\<close> is or derives
    from, which is what \<^verbatim>\<open>dynamic_cast\<close> inspects.
  \<^item> \<^verbatim>\<open>std::unordered_map<std::size_t, std::unique_ptr<Component>>\<close> is an
    association list: the key lookup is \<open>map_of\<close>, and the list order stands for the
    unspecified iteration order. The stored pointers are never null in a defined execution,
    as the only insertion (\<^verbatim>\<open>AddSubComponent\<close>) dereferences what it inserts.
  \<^item> The four virtual hooks do nothing by default and are overridden by concrete
    components. A call of a hook is recorded as an \<open>event\<close> carrying the receiver as it
    is when the hook runs (so what \<^verbatim>\<open>GetParent()\<close> and
    \<^verbatim>\<open>GetComponents()\<close> would show inside the hook) and the pointer argument.
    The end of an object's destruction is recorded as \<open>Destroyed\<close>.
  \<^item> Every operation takes \<^verbatim>\<open>this\<close> and returns the updated
    \<^verbatim>\<open>this\<close>, the events it caused in order, and its result.
\<close>

type_synonym addr = nat
type_synonym type_key = nat

datatype 'd component = Component
  (this_addr: addr)
  (bases: "type_key list")
  (derived_state: 'd)
  (Parent: "addr option")
  (SubComponents: "(type_key \<times> 'd component) list")

datatype 'd event =
    OnAttachedToComponent "'d component"
  | OnDetachedFromComponent "'d component"
  | OnComponentAttached "'d component" "'d component"
  | OnComponentDetached "'d component" "'d component"
  | Destroyed addr

text \<open>Dereferencing a null pointer is undefined behaviour; it is the one error of the model.\<close>

datatype error = NullPointerDereference

definition set_Parent :: "addr option \<Rightarrow> 'd component \<Rightarrow> 'd component" where
  "set_Parent p c = Component (this_addr c) (bases c) (derived_state c) p (SubComponents c)"

definition set_SubComponents ::
  "(type_key \<times> 'd component) list \<Rightarrow> 'd component \<Rightarrow> 'd component" where
  "set_SubComponents subs c = Component (this_addr c) (bases c) (derived_state c) (Parent c) subs"

text \<open>\<^verbatim>\<open>GetParent()\<close> (Component.hpp 64-70): a \<^verbatim>\<open>static_cast\<close> of the stored pointer.\<close>

definition GetParent :: "'d component \<Rightarrow> addr option" where
  "GetParent this = Parent this"

text \<open>\<^verbatim>\<open>dynamic_cast<T*>(p)\<close>: null stays null, and the cast fails to null unless the
  dynamic type of the pointee is \<open>T\<close> or derives from it.\<close>

definition dynamic_cast :: "type_key \<Rightarrow> 'd component option \<Rightarrow> 'd component option" where
  "dynamic_cast T p =
     (case p of
        None \<Rightarrow> None
      | Some c \<Rightarrow> if T \<in> set (bases c) then Some c else None)"

subsection \<open>Destruction\<close>

text \<open>
  \<^verbatim>\<open>Component::~Component()\<close> (Component.cpp 72-78). The body calls
  \<^verbatim>\<open>OnDetachedFromComponent()\<close> on every sub component; after the body the member
  \<^verbatim>\<open>SubComponents\<close> is destroyed, and each \<^verbatim>\<open>unique_ptr\<close> in it destroys
  its object in the same way.
\<close>

fun destructor :: "'d component \<Rightarrow> 'd event list" where
  "destructor (Component a bs d par subs) =
     map OnDetachedFromComponent (map snd subs)
     @ concat (map destructor (map snd subs))
     @ [Destroyed a]"

subsection \<open>The private registry operations (Component.cpp)\<close>

text \<open>
  \<^verbatim>\<open>AddSubComponent\<close> (Component.cpp 19-42). \<^verbatim>\<open>component_pointer->Parent = this\<close>
  in line 37 dereferences the pointer taken from \<^verbatim>\<open>component_instance\<close> with no
  check, so a null \<^verbatim>\<open>component_instance\<close> makes the call undefined. Assigning to
  the occupied slot (line 30) destroys the object the slot owned.
\<close>

definition AddSubComponent ::
  "'d component \<Rightarrow> type_key \<Rightarrow> 'd component option
     \<Rightarrow> error + ('d component \<times> 'd event list \<times> 'd component)" where
  "AddSubComponent this hash component_instance =
     (case component_instance of
        None \<Rightarrow> Inl NullPointerDereference
      | Some component \<Rightarrow>
          let (evs, subs) =
                (case map_of (SubComponents this) hash of
                   Some old \<Rightarrow>
                     ([OnComponentDetached this old, OnDetachedFromComponent old]
                        @ destructor old,
                      AList.update hash component (SubComponents this))
                 | None \<Rightarrow> ([], SubComponents this @ [(hash, component)]));
              component_pointer = set_Parent (Some (this_addr this)) component;
              this' = set_SubComponents (AList.update hash component_pointer subs) this
          in Inr (this',
                  evs @ [OnComponentAttached this' component_pointer,
                         OnAttachedToComponent component_pointer],
                  component_pointer))"

text \<open>\<^verbatim>\<open>RemoveSubComponent\<close> (Component.cpp 45-56); \<^verbatim>\<open>erase\<close> destroys the child.\<close>

definition RemoveSubComponent ::
  "'d component \<Rightarrow> type_key \<Rightarrow> 'd component \<times> 'd event list" where
  "RemoveSubComponent this hash =
     (case map_of (SubComponents this) hash of
        Some c \<Rightarrow>
          (set_SubComponents (AList.delete hash (SubComponents this)) this,
           [OnDetachedFromComponent c, OnComponentDetached this c] @ destructor c)
      | None \<Rightarrow> (this, []))"

text \<open>\<^verbatim>\<open>GetSubComponent\<close> (Component.cpp 59-69).\<close>

definition GetSubComponent :: "'d component \<Rightarrow> type_key \<Rightarrow> 'd component option" where
  "GetSubComponent this hash =
     (case map_of (SubComponents this) hash of
        Some c \<Rightarrow> Some c
      | None \<Rightarrow> None)"

text \<open>
  \<^verbatim>\<open>SeparateSubComponent\<close> (Component.cpp 81-93): the owning pointer is moved out of
  the slot and the slot is erased; no hook is called and no field of the child is written.
\<close>

definition SeparateSubComponent ::
  "'d component \<Rightarrow> type_key \<Rightarrow> 'd component \<times> 'd event list \<times> 'd component option" where
  "SeparateSubComponent this hash =
     (case map_of (SubComponents this) hash of
        Some component \<Rightarrow>
          (set_SubComponents (AList.delete hash (SubComponents this)) this, [], Some component)
      | None \<Rightarrow> (this, [], None))"

subsection \<open>The public templates (Component.hpp)\<close>

text \<open>\<^verbatim>\<open>HasComponent<T>()\<close> (Component.hpp 117-121).\<close>

definition HasComponent :: "'d component \<Rightarrow> type_key \<Rightarrow> bool" where
  "HasComponent this T = (GetSubComponent this T \<noteq> None)"

text \<open>
  \<^verbatim>\<open>AddComponent<T>(arguments...)\<close> (Component.hpp 131-139). The constructor of
  \<open>T\<close> belongs to the concrete component; \<open>constructed\<close> is the object that
  \<^verbatim>\<open>std::make_unique<T>(arguments...)\<close> yields.
\<close>

definition AddComponent ::
  "'d component \<Rightarrow> type_key \<Rightarrow> 'd component
     \<Rightarrow> error + ('d component \<times> 'd event list \<times> 'd component option)" where
  "AddComponent this T constructed =
     (case AddSubComponent this T (Some constructed) of
        Inl e \<Rightarrow> Inl e
      | Inr (this', evs, p) \<Rightarrow> Inr (this', evs, dynamic_cast T (Some p)))"

text \<open>\<^verbatim>\<open>AdoptComponent<T>(component)\<close> (Component.hpp 148-158); the cast to the base
  class keeps the pointer, null included.\<close>

definition AdoptComponent ::
  "'d component \<Rightarrow> type_key \<Rightarrow> 'd component option
     \<Rightarrow> error + ('d component \<times> 'd event list \<times> 'd component option)" where
  "AdoptComponent this T component =
     (let component_instance = component in
      case AddSubComponent this T component_instance of
        Inl e \<Rightarrow> Inl e
      | Inr (this', evs, p) \<Rightarrow> Inr (this', evs, dynamic_cast T (Some p)))"

text \<open>\<^verbatim>\<open>RemoveComponent<T>()\<close> (Component.hpp 164-170).\<close>

definition RemoveComponent :: "'d component \<Rightarrow> type_key \<Rightarrow> 'd component \<times> 'd event list" where
  "RemoveComponent this T = RemoveSubComponent this T"

text \<open>\<^verbatim>\<open>GetComponent<T>()\<close> (Component.hpp 178-184).\<close>

definition GetComponent :: "'d component \<Rightarrow> type_key \<Rightarrow> 'd component option" where
  "GetComponent this T = dynamic_cast T (GetSubComponent this T)"

text \<open>\<^verbatim>\<open>AcquireComponent<T>()\<close> (Component.hpp 191-199); \<open>constructed\<close> is the
  default-constructed \<open>T\<close> that \<^verbatim>\<open>AddComponent<T>()\<close> would make.\<close>

definition AcquireComponent ::
  "'d component \<Rightarrow> type_key \<Rightarrow> 'd component
     \<Rightarrow> error + ('d component \<times> 'd event list \<times> 'd component option)" where
  "AcquireComponent this T constructed =
     (case GetComponent this T of
        Some component \<Rightarrow> Inr (this, [], Some component)
      | None \<Rightarrow> AddComponent this T constructed)"

text \<open>\<^verbatim>\<open>SeparateComponent<T>()\<close> (Component.hpp 206-214).\<close>

definition SeparateComponent ::
  "'d component \<Rightarrow> type_key \<Rightarrow> 'd component \<times> 'd event list \<times> 'd component option" where
  "SeparateComponent this T =
     (case SeparateSubComponent this T of
        (this', evs, released) \<Rightarrow> (this', evs, dynamic_cast T released))"

subsection \<open>The lock each operation takes\<close>

text \<open>
  \<^verbatim>\<open>SubComponentsMutex\<close> is a \<^verbatim>\<open>std::shared_mutex\<close>: it is held either by one
  exclusive owner or by any number of shared owners. An acquisition that would block
  is \<open>None\<close>.
\<close>

record shared_mutex =
  exclusive_owner :: bool
  shared_owners :: nat

definition unlocked :: shared_mutex where
  "unlocked = \<lparr>exclusive_owner = False, shared_owners = 0\<rparr>"

datatype lock_kind = unique_lock | shared_lock

definition acquire :: "lock_kind \<Rightarrow> shared_mutex \<Rightarrow> shared_mutex option" where
  "acquire k m =
     (case k of
        unique_lock \<Rightarrow>
          if exclusive_owner m \<or> 0 < shared_owners m then None
          else Some (m\<lparr>exclusive_owner := True\<rparr>)
      | shared_lock \<Rightarrow>
          if exclusive_owner m then None
          else Some (m\<lparr>shared_owners := Suc (shared_owners m)\<rparr>))"

datatype registry_operation =
    Op_AddSubComponent | Op_RemoveSubComponent | Op_GetSubComponent | Op_SeparateSubComponent

text \<open>The first statement of each operation: Component.cpp lines 23, 47, 61 and 83.\<close>

fun lock_taken :: "registry_operation \<Rightarrow> lock_kind" where
  "lock_taken Op_AddSubComponent = unique_lock"
| "lock_taken Op_RemoveSubComponent = unique_lock"
| "lock_taken Op_GetSubComponent = shared_lock"
| "lock_taken Op_SeparateSubComponent = shared_lock"

subsection \<open>Observations on objects and event sequences\<close>

text \<open>The addresses of an object and of everything it owns, the object first.\<close>

fun addresses :: "'d component \<Rightarrow> addr list" where
  "addresses (Component a bs d par subs) = a # concat (map addresses (map snd subs))"

fun detached_hook_on :: "addr \<Rightarrow> 'd event \<Rightarrow> bool" where
  "detached_hook_on a (OnDetachedFromComponent c) = (this_addr c = a)"
| "detached_hook_on a (OnAttachedToComponent c) = False"
| "detached_hook_on a (OnComponentAttached p c) = False"
| "detached_hook_on a (OnComponentDetached p c) = False"
| "detached_hook_on a (Destroyed b) = False"

fun attached_hook_on :: "addr \<Rightarrow> 'd event \<Rightarrow> bool" where
  "attached_hook_on a (OnAttachedToComponent c) = (this_addr c = a)"
| "attached_hook_on a (OnDetachedFromComponent c) = False"
| "attached_hook_on a (OnComponentAttached p c) = False"
| "attached_hook_on a (OnComponentDetached p c) = False"
| "attached_hook_on a (Destroyed b) = False"

fun parent_detached_hook :: "'d event \<Rightarrow> bool" where
  "parent_detached_hook (OnComponentDetached p c) = True"
| "parent_detached_hook (OnAttachedToComponent c) = False"
| "parent_detached_hook (OnDetachedFromComponent c) = False"
| "parent_detached_hook (OnComponentAttached p c) = False"
| "parent_detached_hook (Destroyed b) = False"

text \<open>How often the object at address \<open>a\<close> had its own detach (attach) hook called.\<close>

definition detached_calls :: "addr \<Rightarrow> 'd event list \<Rightarrow> nat" where
  "detached_calls a evs = length (filter (detached_hook_on a) evs)"

definition attached_calls :: "addr \<Rightarrow> 'd event list \<Rightarrow> nat" where
  "attached_calls a evs = length (filter (attached_hook_on a) evs)"

subsection \<open>The components of the test (GaiaComponentsTest/ComponentTest.cpp)\<close>

text \<open>
  \<^verbatim>\<open>SampleBasicComponent\<close> overrides the four hooks and has no data;
  \<^verbatim>\<open>SampleValueComponent\<close> carries \<^verbatim>\<open>SampleValue\<close>. Both derive from
  \<^verbatim>\<open>Component\<close> directly. The first argument is the address of the new object.
\<close>

definition key_Component :: type_key where
  "key_Component = 0"

definition key_SampleBasicComponent :: type_key where
  "key_SampleBasicComponent = 1"

definition key_SampleValueComponent :: type_key where
  "key_SampleValueComponent = 2"

definition SampleBasicComponent :: "addr \<Rightarrow> int component" where
  "SampleBasicComponent a = Component a [key_SampleBasicComponent, key_Component] 0 None []"

definition SampleValueComponent :: "addr \<Rightarrow> int \<Rightarrow> int component" where
  "SampleValueComponent a v = Component a [key_SampleValueComponent, key_Component] v None []"

text \<open>A \<^verbatim>\<open>SampleBasicComponent\<close> at address 10 that owns \<^verbatim>\<open>SampleValueComponent(6)\<close>
  at address 11, attached as \<^verbatim>\<open>AddComponent\<close> leaves it.\<close>

definition sample_child :: "int component" where
  "sample_child = set_Parent (Some 10) (SampleValueComponent 11 6)"

definition sample_parent :: "int component" where
  "sample_parent =
     set_SubComponents [(key_SampleValueComponent, sample_child)] (SampleBasicComponent 10)"

text \<open>A \<^verbatim>\<open>SampleBasicComponent\<close> at address 20 with two children, one of which owns a
  child of its own.\<close>

definition sample_tree :: "int component" where
  "sample_tree =
     set_SubComponents
       [(key_SampleValueComponent, set_Parent (Some 20) (SampleValueComponent 21 1)),
        (key_SampleBasicComponent,
         set_Parent (Some 20)
           (set_SubComponents
              [(key_SampleValueComponent, set_Parent (Some 22) (SampleValueComponent 23 5))]
              (SampleBasicComponent 22)))]
       (SampleBasicComponent 20)"

section \<open>Auxiliary facts\<close>

lemma this_addr_set_Parent [simp]: "this_addr (set_Parent p c) = this_addr c"
  by (simp add: set_Parent_def)

lemma bases_set_Parent [simp]: "bases (set_Parent p c) = bases c"
  by (simp add: set_Parent_def)

lemma derived_state_set_Parent [simp]: "derived_state (set_Parent p c) = derived_state c"
  by (simp add: set_Parent_def)

lemma Parent_set_Parent [simp]: "Parent (set_Parent p c) = p"
  by (simp add: set_Parent_def)

lemma SubComponents_set_Parent [simp]: "SubComponents (set_Parent p c) = SubComponents c"
  by (simp add: set_Parent_def)

lemma this_addr_set_SubComponents [simp]: "this_addr (set_SubComponents s c) = this_addr c"
  by (simp add: set_SubComponents_def)

lemma bases_set_SubComponents [simp]: "bases (set_SubComponents s c) = bases c"
  by (simp add: set_SubComponents_def)

lemma Parent_set_SubComponents [simp]: "Parent (set_SubComponents s c) = Parent c"
  by (simp add: set_SubComponents_def)

lemma SubComponents_set_SubComponents [simp]: "SubComponents (set_SubComponents s c) = s"
  by (simp add: set_SubComponents_def)

lemma set_SubComponents_twice [simp]:
  "set_SubComponents s (set_SubComponents s' c) = set_SubComponents s c"
  by (simp add: set_SubComponents_def)

lemma set_SubComponents_same [simp]: "set_SubComponents (SubComponents c) c = c"
  by (cases c) (simp add: set_SubComponents_def)

lemma set_Parent_same: "Parent c = p \<Longrightarrow> set_Parent p c = c"
  by (cases c) (simp add: set_Parent_def)

lemma destructor_unfold:
  "destructor c =
     map OnDetachedFromComponent (map snd (SubComponents c))
     @ concat (map destructor (map snd (SubComponents c)))
     @ [Destroyed (this_addr c)]"
  by (cases c) simp

lemma last_destructor: "last (destructor c) = Destroyed (this_addr c)"
  by (cases c) simp

lemma detached_calls_append [simp]:
  "detached_calls a (xs @ ys) = detached_calls a xs + detached_calls a ys"
  by (simp add: detached_calls_def)

lemma detached_calls_Nil [simp]: "detached_calls a [] = 0"
  by (simp add: detached_calls_def)

lemma detached_calls_Cons:
  "detached_calls a (e # evs) = (if detached_hook_on a e then 1 else 0) + detached_calls a evs"
  by (simp add: detached_calls_def)

lemma attached_calls_append [simp]:
  "attached_calls a (xs @ ys) = attached_calls a xs + attached_calls a ys"
  by (simp add: attached_calls_def)

lemma attached_calls_Nil [simp]: "attached_calls a [] = 0"
  by (simp add: attached_calls_def)

lemma attached_calls_Cons:
  "attached_calls a (e # evs) = (if attached_hook_on a e then 1 else 0) + attached_calls a evs"
  by (simp add: attached_calls_def)

text \<open>The detach hooks a destruction calls are those of the objects below the destroyed one,
  one call for each occurrence of an address.\<close>

lemma detached_calls_children:
  assumes "\<And>c. c \<in> set cs \<Longrightarrow>
             detached_calls a (destructor c) = count_list (tl (addresses c)) a"
  shows "detached_calls a (map OnDetachedFromComponent cs)
           + detached_calls a (concat (map destructor cs))
         = count_list (concat (map addresses cs)) a"
  using assms
proof (induction cs)
  case Nil
  show ?case by simp
next
  case (Cons c cs)
  have "count_list (addresses c) a
          = (if this_addr c = a then 1 else 0) + count_list (tl (addresses c)) a"
    by (cases c) simp
  with Cons show ?case
    by (simp add: detached_calls_Cons)
qed

lemma detached_calls_destructor:
  "detached_calls a (destructor c) = count_list (tl (addresses c)) a"
proof (induction c rule: destructor.induct)
  case (1 b bs d par subs)
  have "detached_calls a (map OnDetachedFromComponent (map snd subs))
           + detached_calls a (concat (map destructor (map snd subs)))
         = count_list (concat (map addresses (map snd subs))) a"
    by (rule detached_calls_children) (simp add: 1)
  then show ?case
    by (simp add: detached_calls_Cons)
qed

lemma attached_calls_destructor: "attached_calls a (destructor c) = 0"
proof (induction c rule: destructor.induct)
  case (1 b bs d par subs)
  have "filter (attached_hook_on a) (map OnDetachedFromComponent cs) = []"
    for cs :: "'a component list"
    by (induction cs) simp_all
  moreover have "filter (attached_hook_on a) (concat (map destructor (map snd subs))) = []"
    using 1 by (simp add: filter_concat attached_calls_def)
  ultimately show ?case
    by (simp add: attached_calls_def)
qed

lemma no_parent_detached_destructor:
  "filter parent_detached_hook (destructor c) = []"
proof (induction c rule: destructor.induct)
  case (1 b bs d par subs)
  have "filter parent_detached_hook (map OnDetachedFromComponent cs) = []"
    for cs :: "'a component list"
    by (induction cs) simp_all
  moreover have "filter parent_detached_hook (concat (map destructor (map snd subs))) = []"
    using 1 by (simp add: filter_concat)
  ultimately show ?case by simp
qed

lemma distinct_count_list_one:
  "distinct xs \<Longrightarrow> x \<in> set xs \<Longrightarrow> count_list xs x = 1"
  by (induction xs) auto

lemma child_in_addresses:
  assumes "c \<in> set (map snd (SubComponents this))"
  shows "set (addresses c) \<subseteq> set (tl (addresses this))"
  using assms by (cases this) auto

lemma child_addresses_distinct:
  assumes "distinct (addresses this)" and "c \<in> set (map snd (SubComponents this))"
  shows "distinct (addresses c)"
proof -
  have "distinct (concat (map addresses (map snd (SubComponents this))))"
    using assms(1) by (cases this) simp
  moreover have "addresses c \<in> set (map addresses (map snd (SubComponents this)))"
    using assms(2) by auto
  ultimately show ?thesis
    by (simp add: distinct_concat_iff)
qed

lemma this_addr_in_addresses: "this_addr c \<in> set (addresses c)"
  by (cases c) simp

lemma own_detached_calls_destructor:
  assumes "distinct (addresses c)"
  shows "detached_calls (this_addr c) (destructor c) = 0"
proof -
  have "this_addr c \<notin> set (tl (addresses c))"
    using assms by (cases c) simp
  then show ?thesis
    by (simp add: detached_calls_destructor)
qed

lemma map_of_child:
  "map_of (SubComponents this) T = Some c \<Longrightarrow> c \<in> set (map snd (SubComponents this))"
  by (auto dest: map_of_SomeD intro: image_eqI [where x = "(T, c)"])

lemma destroyed_in_destructor: "Destroyed (this_addr c) \<in> set (destructor c)"
  by (cases c) simp

subsection \<open>The registry operations case by case\<close>

lemma update_appended_slot:
  "map_of al k = None \<Longrightarrow> AList.update k v (al @ [(k, w)]) = al @ [(k, v)]"
  by (induction al) (auto split: if_splits)

lemma AddSubComponent_replace:
  assumes "map_of (SubComponents this) hash = Some old"
  shows "AddSubComponent this hash (Some new) =
     Inr (set_SubComponents
            (AList.update hash (set_Parent (Some (this_addr this)) new) (SubComponents this)) this,
          ([OnComponentDetached this old, OnDetachedFromComponent old] @ destructor old)
          @ [OnComponentAttached
               (set_SubComponents
                  (AList.update hash (set_Parent (Some (this_addr this)) new) (SubComponents this))
                  this)
               (set_Parent (Some (this_addr this)) new),
             OnAttachedToComponent (set_Parent (Some (this_addr this)) new)],
          set_Parent (Some (this_addr this)) new)"
  using assms by (simp add: AddSubComponent_def Let_def)

lemma AddSubComponent_fresh:
  assumes "map_of (SubComponents this) hash = None"
  shows "AddSubComponent this hash (Some new) =
     Inr (set_SubComponents
            (SubComponents this @ [(hash, set_Parent (Some (this_addr this)) new)]) this,
          [OnComponentAttached
             (set_SubComponents
                (SubComponents this @ [(hash, set_Parent (Some (this_addr this)) new)]) this)
             (set_Parent (Some (this_addr this)) new),
           OnAttachedToComponent (set_Parent (Some (this_addr this)) new)],
          set_Parent (Some (this_addr this)) new)"
  using assms by (simp add: AddSubComponent_def Let_def update_appended_slot)

lemma AddSubComponent_slot:
  assumes "AddSubComponent this hash (Some new) = Inr (this', evs, p)"
  shows "map_of (SubComponents this') hash = Some p \<and> p = set_Parent (Some (this_addr this)) new"
proof (cases "map_of (SubComponents this) hash")
  case None
  from assms None show ?thesis
    unfolding AddSubComponent_fresh [OF None] by (auto simp: map_add_def)
next
  case (Some old)
  from assms show ?thesis
    unfolding AddSubComponent_replace [OF Some] by (auto simp: update_conv')
qed

lemma AddSubComponent_total: "\<exists>r. AddSubComponent this hash (Some new) = Inr r"
  by (simp add: AddSubComponent_def Let_def split: option.split prod.split)

lemma SeparateSubComponent_present:
  "map_of (SubComponents this) hash = Some c \<Longrightarrow>
   SeparateSubComponent this hash =
     (set_SubComponents (AList.delete hash (SubComponents this)) this, [], Some c)"
  by (simp add: SeparateSubComponent_def)

lemma SeparateSubComponent_absent:
  "map_of (SubComponents this) hash = None \<Longrightarrow> SeparateSubComponent this hash = (this, [], None)"
  by (simp add: SeparateSubComponent_def)

lemma map_of_deleted_slot: "map_of (AList.delete k al) k = None"
  by (simp add: delete_conv')

lemma dynamic_cast_is_a: "T \<in> set (bases c) \<Longrightarrow> dynamic_cast T (Some c) = Some c"
  by (simp add: dynamic_cast_def)

lemma dynamic_cast_null: "dynamic_cast T None = None"
  by (simp add: dynamic_cast_def)

lemma dynamic_cast_Some: "dynamic_cast T p = Some c \<Longrightarrow> p = Some c \<and> T \<in> set (bases c)"
  by (auto simp: dynamic_cast_def split: option.splits if_splits)

section \<open>The claims\<close>

subsection \<open>Separation\<close>

text \<open>
  C1. The claim: on a parent that holds a child keyed \<open>T\<close>, \<^verbatim>\<open>SeparateComponent<T>()\<close>
  calls the child's \<^verbatim>\<open>OnDetachedFromComponent\<close> and then the parent's
  \<^verbatim>\<open>OnComponentDetached\<close>, as \<^verbatim>\<open>RemoveComponent<T>()\<close> does, before it removes
  the slot and hands the live child to the caller.

  The code removes the slot and returns the child undestroyed, but calls no hook at all.
  The theorem evaluates both operations on the parent of the test: separation leaves the
  event sequence empty, while removal of the same child calls the two hooks in the order the
  claim names. The last part: the event sequence of a separation is empty on every
  component and for every key.
\<close>

theorem separate_calls_no_hook:
  "SeparateComponent sample_parent key_SampleValueComponent
     = (SampleBasicComponent 10, [], Some sample_child)
 \<and> RemoveComponent sample_parent key_SampleValueComponent
     = (SampleBasicComponent 10,
        [OnDetachedFromComponent sample_child,
         OnComponentDetached sample_parent sample_child,
         Destroyed 11])
 \<and> fst (snd (SeparateComponent this T)) = []"
proof (intro conjI)
  show "SeparateComponent sample_parent key_SampleValueComponent
          = (SampleBasicComponent 10, [], Some sample_child)"
    by code_simp
  show "RemoveComponent sample_parent key_SampleValueComponent
          = (SampleBasicComponent 10,
             [OnDetachedFromComponent sample_child,
              OnComponentDetached sample_parent sample_child,
              Destroyed 11])"
    by code_simp
  show "fst (snd (SeparateComponent this T)) = []"
    by (simp add: SeparateComponent_def SeparateSubComponent_def split: option.split)
qed

text \<open>
  C2. The claim: the child returned by \<^verbatim>\<open>SeparateComponent<T>()\<close> has its parent
  reference cleared, so its \<^verbatim>\<open>GetParent()\<close> is null.

  No statement of the code ever resets \<^verbatim>\<open>Parent\<close>. The counterexample attaches
  \<^verbatim>\<open>SampleValueComponent(6)\<close> to the component at address 10 and separates it again:
  the returned object still names address 10 as its parent.
\<close>

theorem separate_clears_parent_counterexample:
  "(case AddComponent (SampleBasicComponent 10) key_SampleValueComponent
           (SampleValueComponent 11 6) of
      Inl e \<Rightarrow> False
    | Inr (p, evs, added) \<Rightarrow>
        p = sample_parent \<and>
        map_option GetParent (snd (snd (SeparateComponent p key_SampleValueComponent)))
          = Some (Some 10) \<and>
        map_option GetParent (snd (snd (SeparateComponent p key_SampleValueComponent)))
          \<noteq> Some None)"
  by code_simp

text \<open>
  C2, as amended: the child returned by \<^verbatim>\<open>SeparateComponent<T>()\<close> is the stored
  object unchanged. Its parent reference is what it was while attached, so for a child
  whose parent reference names the separating component \<^verbatim>\<open>GetParent()\<close> still
  returns that component.
\<close>

theorem separate_keeps_parent:
  assumes "map_of (SubComponents this) T = Some c" and "T \<in> set (bases c)"
  shows "SeparateComponent this T =
           (set_SubComponents (AList.delete T (SubComponents this)) this, [], Some c)
       \<and> map_option GetParent (snd (snd (SeparateComponent this T))) = Some (GetParent c)
       \<and> (Parent c = Some (this_addr this) \<longrightarrow>
            map_option GetParent (snd (snd (SeparateComponent this T)))
              = Some (Some (this_addr this)))"
  using assms
  by (simp add: SeparateComponent_def SeparateSubComponent_present dynamic_cast_is_a GetParent_def)

theorem separate_keeps_parent_witness:
  "map_of (SubComponents sample_parent) key_SampleValueComponent = Some sample_child
 \<and> key_SampleValueComponent \<in> set (bases sample_child)
 \<and> Parent sample_child = Some (this_addr sample_parent)
 \<and> SeparateComponent sample_parent key_SampleValueComponent =
      (set_SubComponents
         (AList.delete key_SampleValueComponent (SubComponents sample_parent)) sample_parent,
       [], Some sample_child)
 \<and> map_option GetParent (snd (snd (SeparateComponent sample_parent key_SampleValueComponent)))
      = Some (Some (this_addr sample_parent))"
proof -
  have h1: "map_of (SubComponents sample_parent) key_SampleValueComponent = Some sample_child"
    by code_simp
  have h2: "key_SampleValueComponent \<in> set (bases sample_child)"
    by code_simp
  have h3: "Parent sample_child = Some (this_addr sample_parent)"
    by code_simp
  from separate_keeps_parent [OF h1 h2] h1 h2 h3 show ?thesis
    by blast
qed

text \<open>
  C3. The claim: on one component, every structural change (attach, detach, replace,
  separate) excludes every other structural change and every read.

  \<^verbatim>\<open>SeparateSubComponent\<close> erases a slot while it holds the mutex only in shared mode
  (\<^verbatim>\<open>std::shared_lock\<close>, Component.cpp line 83), the mode of the reader
  \<^verbatim>\<open>GetSubComponent\<close>; the other two writers take \<^verbatim>\<open>std::unique_lock\<close>.
  The theorem: starting from the free mutex, a separation and a lookup, or two separations,
  both acquire it and hold it together, whereas a lookup blocks once a removal holds it; and
  the separation does change the registry.
\<close>

theorem separate_holds_only_a_shared_lock:
  "lock_taken Op_SeparateSubComponent = shared_lock
 \<and> Option.bind (acquire (lock_taken Op_SeparateSubComponent) unlocked)
      (acquire (lock_taken Op_GetSubComponent))
     = Some \<lparr>exclusive_owner = False, shared_owners = 2\<rparr>
 \<and> Option.bind (acquire (lock_taken Op_SeparateSubComponent) unlocked)
      (acquire (lock_taken Op_SeparateSubComponent))
     = Some \<lparr>exclusive_owner = False, shared_owners = 2\<rparr>
 \<and> Option.bind (acquire (lock_taken Op_RemoveSubComponent) unlocked)
      (acquire (lock_taken Op_GetSubComponent)) = None
 \<and> SubComponents sample_parent = [(key_SampleValueComponent, sample_child)]
 \<and> SubComponents (fst (SeparateSubComponent sample_parent key_SampleValueComponent)) = []"
  by code_simp

subsection \<open>Replacement\<close>

text \<open>
  C4. When \<^verbatim>\<open>AddComponent<T>\<close> or \<^verbatim>\<open>AdoptComponent<T>\<close> finds the slot of \<open>T\<close>
  occupied by \<open>old\<close>, the events are, in this order: the parent's
  \<^verbatim>\<open>OnComponentDetached\<close> for \<open>old\<close>, the own \<^verbatim>\<open>OnDetachedFromComponent\<close> of
  \<open>old\<close>, the destruction of \<open>old\<close> (which ends with \<open>Destroyed\<close> for it), the
  parent's \<^verbatim>\<open>OnComponentAttached\<close> for the new child, and the new child's own
  \<^verbatim>\<open>OnAttachedToComponent\<close>. Both attach hooks already see the new child in the slot
  with its parent reference set. Afterwards \<^verbatim>\<open>GetComponent<T>()\<close> returns the new
  child, and the detach hook of \<open>old\<close> has been called exactly once, before the attach
  hooks. The objects of the parent are taken to lie at distinct addresses, and the new
  object to be a \<open>T\<close>, as the static types of both templates guarantee.
\<close>

theorem replace_firing_order:
  assumes "map_of (SubComponents this) T = Some old"
    and "T \<in> set (bases new)"
    and "distinct (addresses this)"
  shows "(let new' = set_Parent (Some (this_addr this)) new;
              this' = set_SubComponents (AList.update T new' (SubComponents this)) this;
              detach = [OnComponentDetached this old, OnDetachedFromComponent old]
                         @ destructor old;
              attach = [OnComponentAttached this' new', OnAttachedToComponent new']
          in AdoptComponent this T (Some new) = Inr (this', detach @ attach, Some new')
           \<and> AddComponent this T new = Inr (this', detach @ attach, Some new')
           \<and> last (destructor old) = Destroyed (this_addr old)
           \<and> GetParent new' = Some (this_addr this)
           \<and> map_of (SubComponents this') T = Some new'
           \<and> GetComponent this' T = Some new'
           \<and> detached_calls (this_addr old) detach = 1
           \<and> detached_calls (this_addr old) (detach @ attach) = 1)"
proof -
  have old: "distinct (addresses old)"
    using assms(1,3) by (blast intro: child_addresses_distinct map_of_child)
  have cast: "dynamic_cast T (Some (set_Parent (Some (this_addr this)) new))
                = Some (set_Parent (Some (this_addr this)) new)"
    using assms(2) by (simp add: dynamic_cast_def)
  have get: "GetComponent
               (set_SubComponents
                  (AList.update T (set_Parent (Some (this_addr this)) new) (SubComponents this))
                  this) T
               = Some (set_Parent (Some (this_addr this)) new)"
    using assms(2)
    by (simp add: GetComponent_def GetSubComponent_def dynamic_cast_def update_conv')
  have once: "detached_calls (this_addr old)
                ([OnComponentDetached this old, OnDetachedFromComponent old] @ destructor old) = 1"
    using own_detached_calls_destructor [OF old] by (simp add: detached_calls_Cons)
  show ?thesis
    unfolding Let_def
    using AddSubComponent_replace [OF assms(1), of new] cast get once
    by (simp add: AdoptComponent_def AddComponent_def GetParent_def last_destructor
        update_conv' detached_calls_Cons)
qed

theorem replace_firing_order_witness:
  "map_of (SubComponents sample_parent) key_SampleValueComponent = Some sample_child
 \<and> key_SampleValueComponent \<in> set (bases (SampleValueComponent 12 3))
 \<and> distinct (addresses sample_parent)
 \<and> (let new' = set_Parent (Some (this_addr sample_parent)) (SampleValueComponent 12 3);
        this' = set_SubComponents
                  (AList.update key_SampleValueComponent new' (SubComponents sample_parent))
                  sample_parent;
        detach = [OnComponentDetached sample_parent sample_child,
                  OnDetachedFromComponent sample_child]
                   @ destructor sample_child;
        attach = [OnComponentAttached this' new', OnAttachedToComponent new']
    in AdoptComponent sample_parent key_SampleValueComponent (Some (SampleValueComponent 12 3))
         = Inr (this', detach @ attach, Some new')
     \<and> AddComponent sample_parent key_SampleValueComponent (SampleValueComponent 12 3)
         = Inr (this', detach @ attach, Some new')
     \<and> last (destructor sample_child) = Destroyed (this_addr sample_child)
     \<and> GetParent new' = Some (this_addr sample_parent)
     \<and> map_of (SubComponents this') key_SampleValueComponent = Some new'
     \<and> GetComponent this' key_SampleValueComponent = Some new'
     \<and> detached_calls (this_addr sample_child) detach = 1
     \<and> detached_calls (this_addr sample_child) (detach @ attach) = 1)"
proof -
  have h1: "map_of (SubComponents sample_parent) key_SampleValueComponent = Some sample_child"
    by code_simp
  have h2: "key_SampleValueComponent \<in> set (bases (SampleValueComponent 12 3))"
    by code_simp
  have h3: "distinct (addresses sample_parent)"
    by code_simp
  show ?thesis
    by (intro conjI h1 h2 h3 replace_firing_order [OF h1 h2 h3])
qed

text \<open>
  C5. The claim: \<^verbatim>\<open>x = SeparateComponent<T>()\<close> followed by
  \<^verbatim>\<open>AdoptComponent<T>(move(x))\<close> on the same parent restores the child, with the detach
  hooks and then the attach hooks called exactly once each.

  The child is restored: on the parent of the test the round trip ends in the initial parent,
  and \<^verbatim>\<open>GetComponent<T>()\<close> returns the same object with the same state. But the
  separation calls no hook, so the whole round trip calls the two attach hooks once and the
  detach hook of the child not at all.
\<close>

theorem separate_adopt_round_trip:
  "(case SeparateComponent sample_parent key_SampleValueComponent of
     (p1, evs1, x) \<Rightarrow>
       (case AdoptComponent p1 key_SampleValueComponent x of
          Inl e \<Rightarrow> False
        | Inr (p2, evs2, r) \<Rightarrow>
            x = Some sample_child
          \<and> p2 = sample_parent
          \<and> GetComponent p2 key_SampleValueComponent = Some sample_child
          \<and> evs1 = []
          \<and> evs2 = [OnComponentAttached sample_parent sample_child,
                     OnAttachedToComponent sample_child]
          \<and> detached_calls 11 (evs1 @ evs2) = 0
          \<and> attached_calls 11 (evs1 @ evs2) = 1))"
  by code_simp

subsection \<open>Destruction of a component\<close>

text \<open>
  C6. Destroying a component whose objects lie at distinct addresses first calls
  \<^verbatim>\<open>OnDetachedFromComponent\<close> on each direct child, then destroys the children one
  after the other, each with its whole subtree, and ends with its own \<open>Destroyed\<close>.
  Every direct child receives its detach hook exactly once and is destroyed; so does every
  object further down (exactly one detach hook for each address below the destroyed
  component). The parent-side \<^verbatim>\<open>OnComponentDetached\<close> is never called, and the
  destroyed component itself receives no detach hook.
\<close>

theorem destructor_propagation:
  assumes "distinct (addresses this)"
  shows "destructor this =
           map OnDetachedFromComponent (map snd (SubComponents this))
           @ concat (map destructor (map snd (SubComponents this)))
           @ [Destroyed (this_addr this)]
       \<and> (\<forall>c \<in> set (map snd (SubComponents this)).
             detached_calls (this_addr c) (destructor this) = 1
           \<and> Destroyed (this_addr c)
               \<in> set (concat (map destructor (map snd (SubComponents this)))))
       \<and> filter parent_detached_hook (destructor this) = []
       \<and> (\<forall>a \<in> set (tl (addresses this)). detached_calls a (destructor this) = 1)
       \<and> detached_calls (this_addr this) (destructor this) = 0"
proof -
  have "distinct (tl (addresses this))"
    using assms by (rule distinct_tl)
  then have sub: "\<forall>a \<in> set (tl (addresses this)). detached_calls a (destructor this) = 1"
    by (simp add: detached_calls_destructor distinct_count_list_one)
  have child: "detached_calls (this_addr c) (destructor this) = 1
      \<and> Destroyed (this_addr c) \<in> set (concat (map destructor (map snd (SubComponents this))))"
    if "c \<in> set (map snd (SubComponents this))" for c
  proof
    have "this_addr c \<in> set (tl (addresses this))"
      using child_in_addresses [OF that] this_addr_in_addresses [of c] by blast
    with sub show "detached_calls (this_addr c) (destructor this) = 1"
      by blast
    show "Destroyed (this_addr c)
            \<in> set (concat (map destructor (map snd (SubComponents this))))"
      using that destroyed_in_destructor [of c] by auto
  qed
  show ?thesis
    using child sub own_detached_calls_destructor [OF assms]
      destructor_unfold [of this] no_parent_detached_destructor [of this]
    by blast
qed

theorem destructor_propagation_witness:
  "distinct (addresses sample_tree)
 \<and> map this_addr (map snd (SubComponents sample_tree)) = [21, 22]
 \<and> tl (addresses sample_tree) = [21, 22, 23]
 \<and> destructor sample_tree =
      map OnDetachedFromComponent (map snd (SubComponents sample_tree))
      @ concat (map destructor (map snd (SubComponents sample_tree)))
      @ [Destroyed (this_addr sample_tree)]
 \<and> detached_calls 21 (destructor sample_tree) = 1
 \<and> detached_calls 22 (destructor sample_tree) = 1
 \<and> detached_calls 23 (destructor sample_tree) = 1
 \<and> filter parent_detached_hook (destructor sample_tree) = []
 \<and> detached_calls (this_addr sample_tree) (destructor sample_tree) = 0"
proof -
  have h: "distinct (addresses sample_tree)"
    by code_simp
  have children: "map this_addr (map snd (SubComponents sample_tree)) = [21, 22]"
    by code_simp
  have below: "tl (addresses sample_tree) = [21, 22, 23]"
    by code_simp
  note all = destructor_propagation [OF h]
  note shape = all [THEN conjunct1]
  note no_parent_hook = all [THEN conjunct2, THEN conjunct2, THEN conjunct1]
  note own = all [THEN conjunct2, THEN conjunct2, THEN conjunct2, THEN conjunct2]
  have "\<forall>a \<in> set (tl (addresses sample_tree)). detached_calls a (destructor sample_tree) = 1"
    by (rule all [THEN conjunct2, THEN conjunct2, THEN conjunct2, THEN conjunct1])
  then have calls:
    "detached_calls 21 (destructor sample_tree) = 1"
    "detached_calls 22 (destructor sample_tree) = 1"
    "detached_calls 23 (destructor sample_tree) = 1"
    unfolding below by simp_all
  show ?thesis
    by (intro conjI h children below shape calls no_parent_hook own)
qed

subsection \<open>Absent and present slots\<close>

text \<open>
  C7. \<^verbatim>\<open>SeparateComponent<T>()\<close> returns null and changes nothing when no child is
  keyed \<open>T\<close>. When the slot holds a \<open>T\<close>, the first call returns that child and a
  second call right after it returns null and changes nothing.
\<close>

theorem separate_twice:
  "(map_of (SubComponents this) T = None \<longrightarrow> SeparateComponent this T = (this, [], None))
 \<and> (map_of (SubComponents this) T = Some c \<and> T \<in> set (bases c) \<longrightarrow>
      (case SeparateComponent this T of
         (this', evs, first) \<Rightarrow>
           first = Some c \<and>
           (case SeparateComponent this' T of
              (this'', evs', second) \<Rightarrow> second = None \<and> this'' = this')))"
  by (simp add: SeparateComponent_def SeparateSubComponent_present SeparateSubComponent_absent
      map_of_deleted_slot dynamic_cast_is_a dynamic_cast_null)

theorem separate_twice_witness:
  "map_of (SubComponents (SampleBasicComponent 10)) key_SampleValueComponent = None
 \<and> SeparateComponent (SampleBasicComponent 10) key_SampleValueComponent
     = (SampleBasicComponent 10, [], None)
 \<and> map_of (SubComponents sample_parent) key_SampleValueComponent = Some sample_child
 \<and> key_SampleValueComponent \<in> set (bases sample_child)
 \<and> (case SeparateComponent sample_parent key_SampleValueComponent of
       (this', evs, first) \<Rightarrow>
         first = Some sample_child \<and>
         (case SeparateComponent this' key_SampleValueComponent of
            (this'', evs', second) \<Rightarrow> second = None \<and> this'' = this'))"
proof -
  have absent: "map_of (SubComponents (SampleBasicComponent 10)) key_SampleValueComponent = None"
    by code_simp
  have present: "map_of (SubComponents sample_parent) key_SampleValueComponent = Some sample_child
      \<and> key_SampleValueComponent \<in> set (bases sample_child)"
    by code_simp
  note first = separate_twice [of "SampleBasicComponent 10" key_SampleValueComponent sample_child,
      THEN conjunct1, rule_format, OF absent]
  note second = separate_twice [of sample_parent key_SampleValueComponent sample_child,
      THEN conjunct2, rule_format, OF present]
  show ?thesis
    by (intro conjI absent present [THEN conjunct1] present [THEN conjunct2] first second)
qed

text \<open>
  C8. \<^verbatim>\<open>RemoveComponent<T>()\<close> with no child keyed \<open>T\<close> returns normally, calls no
  hook and leaves the component as it was. With a child in the slot it calls the child's
  \<^verbatim>\<open>OnDetachedFromComponent\<close>, then the parent's \<^verbatim>\<open>OnComponentDetached\<close>, then
  destroys the child; the slot is empty afterwards.
\<close>

theorem remove_absent_or_present:
  "(map_of (SubComponents this) T = None \<longrightarrow> RemoveComponent this T = (this, []))
 \<and> (map_of (SubComponents this) T = Some c \<longrightarrow>
      RemoveComponent this T =
        (set_SubComponents (AList.delete T (SubComponents this)) this,
         [OnDetachedFromComponent c, OnComponentDetached this c] @ destructor c)
      \<and> last (destructor c) = Destroyed (this_addr c)
      \<and> GetSubComponent (fst (RemoveComponent this T)) T = None)"
  by (simp add: RemoveComponent_def RemoveSubComponent_def GetSubComponent_def
      map_of_deleted_slot last_destructor)

theorem remove_absent_or_present_witness:
  "map_of (SubComponents sample_parent) key_SampleBasicComponent = None
 \<and> RemoveComponent sample_parent key_SampleBasicComponent = (sample_parent, [])
 \<and> map_of (SubComponents sample_parent) key_SampleValueComponent = Some sample_child
 \<and> RemoveComponent sample_parent key_SampleValueComponent =
      (set_SubComponents
         (AList.delete key_SampleValueComponent (SubComponents sample_parent)) sample_parent,
       [OnDetachedFromComponent sample_child, OnComponentDetached sample_parent sample_child]
         @ destructor sample_child)
 \<and> last (destructor sample_child) = Destroyed (this_addr sample_child)
 \<and> GetSubComponent (fst (RemoveComponent sample_parent key_SampleValueComponent))
      key_SampleValueComponent = None"
proof -
  have absent: "map_of (SubComponents sample_parent) key_SampleBasicComponent = None"
    by code_simp
  have present: "map_of (SubComponents sample_parent) key_SampleValueComponent = Some sample_child"
    by code_simp
  from remove_absent_or_present [of sample_parent key_SampleBasicComponent sample_child]
    remove_absent_or_present [of sample_parent key_SampleValueComponent sample_child]
    absent present
  show ?thesis
    by blast
qed

text \<open>
  C9. \<^verbatim>\<open>AcquireComponent<T>()\<close> returns the child keyed \<open>T\<close> when the slot holds a
  \<open>T\<close>, without an event and without a change. With an empty slot it is
  \<^verbatim>\<open>AddComponent<T>()\<close>: the default-constructed object is stored with its parent
  reference set, the two attach hooks are called, and the stored object is returned. Two
  calls in a row return the same object, and the second changes nothing and calls no hook.
\<close>

theorem acquire_idempotent:
  "(map_of (SubComponents this) T = Some c \<and> T \<in> set (bases c) \<longrightarrow>
      AcquireComponent this T new = Inr (this, [], Some c))
 \<and> (map_of (SubComponents this) T = None \<longrightarrow>
      AcquireComponent this T new = AddComponent this T new)
 \<and> (map_of (SubComponents this) T = None \<and> T \<in> set (bases new) \<longrightarrow>
      (let new' = set_Parent (Some (this_addr this)) new;
           this' = set_SubComponents (SubComponents this @ [(T, new')]) this
       in AcquireComponent this T new =
            Inr (this', [OnComponentAttached this' new', OnAttachedToComponent new'], Some new')))
 \<and> (T \<in> set (bases new) \<longrightarrow>
      (case AcquireComponent this T new of
         Inl e \<Rightarrow> False
       | Inr (this1, evs1, r1) \<Rightarrow>
           r1 \<noteq> None \<and> AcquireComponent this1 T new2 = Inr (this1, [], r1)))"
proof (intro conjI impI)
  assume "map_of (SubComponents this) T = Some c \<and> T \<in> set (bases c)"
  then show "AcquireComponent this T new = Inr (this, [], Some c)"
    by (simp add: AcquireComponent_def GetComponent_def GetSubComponent_def dynamic_cast_is_a)
next
  assume "map_of (SubComponents this) T = None"
  then show "AcquireComponent this T new = AddComponent this T new"
    by (simp add: AcquireComponent_def GetComponent_def GetSubComponent_def dynamic_cast_null)
next
  assume "map_of (SubComponents this) T = None \<and> T \<in> set (bases new)"
  then show "(let new' = set_Parent (Some (this_addr this)) new;
           this' = set_SubComponents (SubComponents this @ [(T, new')]) this
       in AcquireComponent this T new =
            Inr (this', [OnComponentAttached this' new', OnAttachedToComponent new'], Some new'))"
    by (simp add: AcquireComponent_def GetComponent_def GetSubComponent_def dynamic_cast_null
        AddComponent_def AddSubComponent_fresh dynamic_cast_is_a Let_def)
next
  assume new: "T \<in> set (bases new)"
  show "case AcquireComponent this T new of
         Inl e \<Rightarrow> False
       | Inr (this1, evs1, r1) \<Rightarrow>
           r1 \<noteq> None \<and> AcquireComponent this1 T new2 = Inr (this1, [], r1)"
  proof (cases "GetComponent this T")
    case (Some c)
    then show ?thesis
      by (simp add: AcquireComponent_def)
  next
    case None
    obtain this' evs p where add: "AddSubComponent this T (Some new) = Inr (this', evs, p)"
      using AddSubComponent_total [of this T new] by (metis prod_cases3)
    from AddSubComponent_slot [OF add] new
    have "GetComponent this' T = Some p"
      by (simp add: GetComponent_def GetSubComponent_def dynamic_cast_is_a)
    moreover have "dynamic_cast T (Some p) = Some p"
      using AddSubComponent_slot [OF add] new by (simp add: dynamic_cast_is_a)
    ultimately show ?thesis
      using None add by (simp add: AcquireComponent_def AddComponent_def)
  qed
qed

theorem acquire_idempotent_witness:
  "map_of (SubComponents sample_parent) key_SampleValueComponent = Some sample_child
 \<and> key_SampleValueComponent \<in> set (bases sample_child)
 \<and> AcquireComponent sample_parent key_SampleValueComponent (SampleValueComponent 12 0)
     = Inr (sample_parent, [], Some sample_child)
 \<and> map_of (SubComponents (SampleBasicComponent 10)) key_SampleValueComponent = None
 \<and> key_SampleValueComponent \<in> set (bases (SampleValueComponent 12 0))
 \<and> AcquireComponent (SampleBasicComponent 10) key_SampleValueComponent (SampleValueComponent 12 0)
     = AddComponent (SampleBasicComponent 10) key_SampleValueComponent (SampleValueComponent 12 0)
 \<and> (let new' = set_Parent (Some (this_addr (SampleBasicComponent 10))) (SampleValueComponent 12 0);
        this' = set_SubComponents
                  (SubComponents (SampleBasicComponent 10) @ [(key_SampleValueComponent, new')])
                  (SampleBasicComponent 10)
    in AcquireComponent (SampleBasicComponent 10) key_SampleValueComponent
         (SampleValueComponent 12 0) =
         Inr (this', [OnComponentAttached this' new', OnAttachedToComponent new'], Some new'))
 \<and> (case AcquireComponent (SampleBasicComponent 10) key_SampleValueComponent
           (SampleValueComponent 12 0) of
       Inl e \<Rightarrow> False
     | Inr (this1, evs1, r1) \<Rightarrow>
         r1 \<noteq> None \<and>
         AcquireComponent this1 key_SampleValueComponent (SampleValueComponent 13 0)
           = Inr (this1, [], r1))"
proof -
  have present: "map_of (SubComponents sample_parent) key_SampleValueComponent = Some sample_child
      \<and> key_SampleValueComponent \<in> set (bases sample_child)"
    by code_simp
  have absent: "map_of (SubComponents (SampleBasicComponent 10)) key_SampleValueComponent = None"
    by code_simp
  have is_a: "key_SampleValueComponent \<in> set (bases (SampleValueComponent 12 0))"
    by code_simp
  from acquire_idempotent [of sample_parent key_SampleValueComponent sample_child
      "SampleValueComponent 12 0" "SampleValueComponent 13 0"]
    acquire_idempotent [of "SampleBasicComponent 10" key_SampleValueComponent sample_child
      "SampleValueComponent 12 0" "SampleValueComponent 13 0"]
    present absent is_a
  show ?thesis
    by blast
qed

subsection \<open>Adopting a null pointer\<close>

text \<open>
  C10. \<^verbatim>\<open>AddSubComponent\<close> dereferences the pointer it is given with no check for
  null. Hence \<^verbatim>\<open>AdoptComponent<T>\<close> of a null \<^verbatim>\<open>unique_ptr\<close> reaches a null
  pointer dereference, whatever the state of the parent, and for every non-null pointer
  both functions return normally.
\<close>

theorem adopt_null_dereference:
  "AddSubComponent this T None = Inl NullPointerDereference
 \<and> AdoptComponent this T None = Inl NullPointerDereference
 \<and> (\<exists>r. AddSubComponent this T (Some c) = Inr r)
 \<and> (\<exists>r. AdoptComponent this T (Some c) = Inr r)"
proof -
  obtain r where r: "AddSubComponent this T (Some c) = Inr r"
    using AddSubComponent_total by blast
  then show ?thesis
    by (cases r) (simp add: AddSubComponent_def AdoptComponent_def)
qed

end
